theory Spec2Isabelle
  imports Main
begin

section \<open>The git-backed media store (media-git.ts)\<close>

text \<open>
  A media descriptor is the object literal \<^verbatim>\<open>{ src, previewSrc, reference }\<close>; an upload
  request is \<^verbatim>\<open>{ file, directory }\<close>. The file content is opaque to the store, so it
  is a type parameter. The field \<^verbatim>\<open>file\<close> is written \<open>upload_file\<close>.
\<close>

record Media =
  src :: string
  previewSrc :: string
  reference :: string

record 'f MediaUploadOptions =
  upload_file :: 'f
  directory :: string

text \<open>
  The argument of \<^verbatim>\<open>writeMediaToDisk\<close> is the literal
  \<^verbatim>\<open>{ directory, content: file }\<close>.
\<close>

record 'f WriteArgs =
  to_directory :: string
  content :: 'f

text \<open>
  The body parsed by \<^verbatim>\<open>response.json()\<close> is annotated
  \<^verbatim>\<open>{ filename: string }\<close> in the source; that annotation is the type of the
  parsed data here. Both awaited calls can reject: a rejection is \<open>Inl\<close> of the reason,
  of an arbitrary type \<open>'e\<close>.
\<close>

record Data =
  filename :: string

datatype 'e Response = Response (json: "'e + Data")

text \<open>
  The client is external. Its one method used here takes the argument object and the
  state of the backend behind the client, and gives the settled promise and the new
  backend state.
\<close>

record ('c, 'f, 'e) GitClient =
  writeMediaToDisk :: "'f WriteArgs \<Rightarrow> 'c \<Rightarrow> ('e + 'e Response) \<times> 'c"

record ('c, 'f, 'e) GitMediaStore =
  accept :: string
  client :: "('c, 'f, 'e) GitClient"

text \<open>
  Everything the methods can touch: the store object itself, the backend behind its
  client, the calls of \<^verbatim>\<open>writeMediaToDisk\<close> issued so far (oldest first) and the lines
  written by \<^verbatim>\<open>console.log\<close>.
\<close>

record ('c, 'f, 'e) world =
  this :: "('c, 'f, 'e) GitMediaStore"
  backend :: 'c
  writes :: "'f WriteArgs list"
  console :: "Media list list"

definition new_GitMediaStore :: "('c, 'f, 'e) GitClient \<Rightarrow> ('c, 'f, 'e) GitMediaStore" where
  "new_GitMediaStore c = \<lparr>accept = ''*'', client = c\<rparr>"

definition list :: "('c, 'f, 'e) world \<Rightarrow> Media list \<times> ('c, 'f, 'e) world" where
  "list w = ([], w)"

definition delete :: "('c, 'f, 'e) world \<Rightarrow> unit \<times> ('c, 'f, 'e) world" where
  "delete w = ((), w)"

text \<open>
  \<^verbatim>\<open>find\<close> declares no parameter; whatever a caller passes (\<open>args\<close>) is ignored.
\<close>

definition find_media :: "'a list \<Rightarrow> ('c, 'f, 'e) world \<Rightarrow> Media \<times> ('c, 'f, 'e) world" where
  "find_media args w =
     (\<lparr>src = ''test.jpg'', previewSrc = ''test.jpg'', reference = ''test.jpg''\<rparr>, w)"

definition write_args :: "'f MediaUploadOptions \<Rightarrow> 'f WriteArgs" where
  "write_args f = \<lparr>to_directory = directory f, content = upload_file f\<rparr>"

text \<open>
  The \<^verbatim>\<open>for ... of\<close> loop of \<^verbatim>\<open>persist\<close>, with the array \<^verbatim>\<open>uploaded\<close> as
  accumulator. A rejected \<^verbatim>\<open>await\<close> leaves the loop and the function at once.
\<close>

fun persist_loop ::
  "'f MediaUploadOptions list \<Rightarrow> Media list \<Rightarrow> ('c, 'f, 'e) world
    \<Rightarrow> ('e + Media list) \<times> ('c, 'f, 'e) world" where
  "persist_loop [] uploaded w = (Inr uploaded, w)"
| "persist_loop (f # files) uploaded w =
     (case writeMediaToDisk (client (this w)) (write_args f) (backend w) of
        (settled, b) \<Rightarrow>
          (let w' = w\<lparr>backend := b, writes := writes w @ [write_args f]\<rparr> in
           case settled of
             Inl e \<Rightarrow> (Inl e, w')
           | Inr response \<Rightarrow>
               (case json response of
                  Inl e \<Rightarrow> (Inl e, w')
                | Inr data \<Rightarrow>
                    persist_loop files
                      (uploaded @ [\<lparr>src = filename data, previewSrc = filename data,
                                     reference = filename data\<rparr>]) w')))"

definition persist ::
  "'f MediaUploadOptions list \<Rightarrow> ('c, 'f, 'e) world
    \<Rightarrow> ('e + Media list) \<times> ('c, 'f, 'e) world" where
  "persist files w =
     (case persist_loop files [] w of
        (Inl e, w') \<Rightarrow> (Inl e, w')
      | (Inr uploaded, w') \<Rightarrow> (Inr uploaded, w'\<lparr>console := console w' @ [uploaded]\<rparr>))"


text \<open>
  A caller's use of the store: any sequence of calls of its four methods.
\<close>

datatype ('f, 'a) call =
  List | Delete | Find "'a list" | Persist "'f MediaUploadOptions list"

fun call_store :: "('f, 'a) call \<Rightarrow> ('c, 'f, 'e) world \<Rightarrow> ('c, 'f, 'e) world" where
  "call_store List w = snd (list w)"
| "call_store Delete w = snd (delete w)"
| "call_store (Find args) w = snd (find_media args w)"
| "call_store (Persist files) w = snd (persist files w)"

fun run_calls :: "('f, 'a) call list \<Rightarrow> ('c, 'f, 'e) world \<Rightarrow> ('c, 'f, 'e) world" where
  "run_calls [] w = w"
| "run_calls (c # cs) w = run_calls cs (call_store c w)"

subsection \<open>What each request's write returns\<close>

text \<open>
  The backend state reached once the writes of \<open>fs\<close> have been issued in order, the
  settled promise of the write for the request at position \<open>i\<close> (issued after the
  writes for the positions before it), and the data parsed from its response.
\<close>

fun backend_after :: "('c, 'f, 'e) GitClient \<Rightarrow> 'f MediaUploadOptions list \<Rightarrow> 'c \<Rightarrow> 'c" where
  "backend_after c [] b = b"
| "backend_after c (f # fs) b = backend_after c fs (snd (writeMediaToDisk c (write_args f) b))"

definition response_at ::
  "('c, 'f, 'e) GitClient \<Rightarrow> 'f MediaUploadOptions list \<Rightarrow> 'c \<Rightarrow> nat \<Rightarrow> 'e + 'e Response" where
  "response_at c files b i =
     fst (writeMediaToDisk c (write_args (files ! i)) (backend_after c (take i files) b))"

definition data_at ::
  "('c, 'f, 'e) GitClient \<Rightarrow> 'f MediaUploadOptions list \<Rightarrow> 'c \<Rightarrow> nat \<Rightarrow> 'e + Data" where
  "data_at c files b i = (case response_at c files b i of Inl e \<Rightarrow> Inl e | Inr r \<Rightarrow> json r)"

text \<open>The world after one call of \<^verbatim>\<open>writeMediaToDisk\<close> for the request \<open>f\<close>.\<close>

definition written :: "'f MediaUploadOptions \<Rightarrow> ('c, 'f, 'e) world \<Rightarrow> ('c, 'f, 'e) world" where
  "written f w =
     w\<lparr>backend := snd (writeMediaToDisk (client (this w)) (write_args f) (backend w)),
       writes := writes w @ [write_args f]\<rparr>"

subsection \<open>Concrete clients and requests\<close>

text \<open>
  A client that stores every file under its directory and counts the writes, and one
  whose second write is rejected.
\<close>

definition disk_client :: "(nat, string, string) GitClient" where
  "disk_client =
     \<lparr>writeMediaToDisk = (\<lambda>a b.
        (Inr (Response (Inr \<lparr>filename = to_directory a @ ''/'' @ content a\<rparr>)), Suc b))\<rparr>"

definition flaky_client :: "(nat, string, string) GitClient" where
  "flaky_client =
     \<lparr>writeMediaToDisk = (\<lambda>a b.
        (if b = Suc 0 then Inl ''offline''
         else Inr (Response (Inr \<lparr>filename = to_directory a @ ''/'' @ content a\<rparr>)), Suc b))\<rparr>"

definition world_of :: "('c, 'f, 'e) GitClient \<Rightarrow> 'c \<Rightarrow> ('c, 'f, 'e) world" where
  "world_of c b = \<lparr>this = new_GitMediaStore c, backend = b, writes = [], console = []\<rparr>"

definition three_files :: "string MediaUploadOptions list" where
  "three_files =
     [\<lparr>upload_file = ''a.png'', directory = ''img''\<rparr>,
      \<lparr>upload_file = ''b.png'', directory = ''img''\<rparr>,
      \<lparr>upload_file = ''c.png'', directory = ''doc''\<rparr>]"


section \<open>The editor state (createEditorState)\<close>

text \<open>
  The plugins are built by functions of other packages; each call is kept as a
  constructor holding its arguments. \<^verbatim>\<open>dropCursor({ width: 2, color: ... })\<close> is
  \<open>dropCursor 2 color\<close>. The schema \<open>'s\<close>, the keymap \<open>'k\<close> built by
  \<^verbatim>\<open>buildKeymap\<close>, the document node \<open>'n\<close> and the CMS plugin \<open>'p\<close> are opaque.
\<close>

datatype ('s, 'k) PMPlugin =
    inputRules 's
  | keymap 'k
  | history
  | links 's
  | dropCursor nat string
  | gapCursor
  | tableEditing
  | tablePlugin
  | imagePlugin

record 'n Translator =
  nodeFromString :: "string \<Rightarrow> 'n"
  stringFromNode :: "'n \<Rightarrow> string"

text \<open>The state that \<^verbatim>\<open>EditorState.create\<close> builds from its configuration.\<close>

record ('s, 'k, 'n) EditorState =
  schema :: 's
  doc :: 'n
  plugins :: "('s, 'k) PMPlugin list"

definition createEditorState ::
  "('s \<Rightarrow> 'p list \<Rightarrow> 'k) \<Rightarrow> 's \<Rightarrow> 'n Translator \<Rightarrow> 'p list \<Rightarrow> string
    \<Rightarrow> ('s, 'k, 'n) EditorState" where
  "createEditorState buildKeymap sch translator cms_plugins str =
     \<lparr>schema = sch,
      doc = nodeFromString translator str,
      plugins =
        [inputRules sch,
         keymap (buildKeymap sch cms_plugins),
         history,
         links sch,
         dropCursor 2 ''rgb(33, 224, 158)'',
         gapCursor,
         tableEditing,
         tablePlugin,
         imagePlugin]\<rparr>"

section \<open>The editor hook (useProsemirror)\<close>

text \<open>
  The parts of an \<^verbatim>\<open>EditorView\<close> the hook touches: its state, its \<^verbatim>\<open>docView\<close>
  (\<^verbatim>\<open>NodeView | null\<close>) and whether \<^verbatim>\<open>destroy\<close> was called on it. The source notes
  that \<^verbatim>\<open>updateState\<close> throws when the docView does not exist.
\<close>

datatype 'n NodeView = NodeView 'n

record ('st, 'n) EditorView =
  state :: 'st
  docView :: "'n NodeView option"
  destroyed :: bool

datatype js_error = TypeError

definition updateState :: "('st, 'n) EditorView \<Rightarrow> 'st \<Rightarrow> js_error + ('st, 'n) EditorView" where
  "updateState view st = (if docView view = None then Inl TypeError else Inr (view\<lparr>state := st\<rparr>))"

definition destroy :: "('st, 'n) EditorView \<Rightarrow> ('st, 'n) EditorView" where
  "destroy view = view\<lparr>docView := None, destroyed := True\<rparr>"

record 'n Transaction =
  docChanged :: bool
  tr_doc :: 'n

text \<open>
  The cleanup function returned by \<^verbatim>\<open>setupEditor\<close> closes over the \<^verbatim>\<open>editorView\<close>
  of the render that ran the effect and over the \<^verbatim>\<open>view\<close> the effect created.
\<close>

record cleanup_closure =
  seen_editorView :: "nat option"
  created_view :: nat

text \<open>
  One instance of the hook: the React state \<^verbatim>\<open>el\<close> and \<^verbatim>\<open>editorView\<close> (the wrapper
  \<^verbatim>\<open>{ view }\<close>, holding the address of a view), the views created so far (a view's
  address is its index), the calls of \<^verbatim>\<open>input.onChange\<close> (oldest first) and the cleanup
  function React holds for \<^verbatim>\<open>setupEditor\<close>.
\<close>

record ('st, 'n) hook =
  el :: "'n option"
  editorView :: "nat option"
  views :: "('st, 'n) EditorView list"
  changes :: "string list"
  cleanup :: "cleanup_closure option"

definition createState ::
  "('s \<Rightarrow> 'p list \<Rightarrow> 'k) \<Rightarrow> 's \<Rightarrow> 'n Translator \<Rightarrow> 'p list \<Rightarrow> string
    \<Rightarrow> ('s, 'k, 'n) EditorState" where
  "createState buildKeymap sch translator cms_plugins str =
     createEditorState buildKeymap sch translator cms_plugins str"

text \<open>
  \<^verbatim>\<open>dispatchTransaction\<close>, for the view at address \<open>view\<close>. \<open>apply_tr\<close> is the editing
  engine's \<^verbatim>\<open>state.apply\<close>. An exception of \<^verbatim>\<open>updateState\<close> leaves the function.
  The source asserts the translator to be there (\<^verbatim>\<open>translator!\<close>), so it is a plain
  argument.
\<close>

definition dispatchTransaction ::
  "('st \<Rightarrow> 'm Transaction \<Rightarrow> 'st) \<Rightarrow> 'm Translator \<Rightarrow> nat \<Rightarrow> 'm Transaction
    \<Rightarrow> ('st, 'n) hook \<Rightarrow> js_error + ('st, 'n) hook" where
  "dispatchTransaction apply_tr translator view tr s =
     (let nextState = apply_tr (state (views s ! view)) tr in
      case updateState (views s ! view) nextState of
        Inl e \<Rightarrow> Inl e
      | Inr v \<Rightarrow>
          (let s1 = s\<lparr>views := (views s)[view := v]\<rparr>;
               s2 = s1\<lparr>editorView := Some view\<rparr>
           in if docChanged tr
              then Inr (s2\<lparr>changes := changes s2 @ [stringFromNode translator (tr_doc tr)]\<rparr>)
              else Inr s2))"

text \<open>
  The effect \<^verbatim>\<open>setupEditor\<close>, run in a render whose \<^verbatim>\<open>el\<close>, \<^verbatim>\<open>editorView\<close> and
  \<^verbatim>\<open>input.value\<close> are \<open>el_r\<close>, \<open>editorView_r\<close> and \<open>str\<close>. It gives the new
  instance and the cleanup function, if it returns one.
\<close>

definition setupEditor ::
  "(string \<Rightarrow> 'st) \<Rightarrow> 'n option \<Rightarrow> nat option \<Rightarrow> string \<Rightarrow> ('st, 'n) hook
    \<Rightarrow> ('st, 'n) hook \<times> cleanup_closure option" where
  "setupEditor create el_r editorView_r str s =
     (case el_r of
        None \<Rightarrow> (s, None)
      | Some e \<Rightarrow>
          (let view = length (views s);
               s1 = s\<lparr>views := views s @
                      [\<lparr>state = create str, docView = Some (NodeView e), destroyed = False\<rparr>]\<rparr>;
               s2 = s1\<lparr>editorView := Some view\<rparr>
           in (s2, Some \<lparr>seen_editorView = editorView_r, created_view = view\<rparr>)))"

definition run_cleanup :: "cleanup_closure \<Rightarrow> ('st, 'n) hook \<Rightarrow> ('st, 'n) hook" where
  "run_cleanup c s =
     (let s1 = s\<lparr>editorView := None\<rparr> in
      if seen_editorView c \<noteq> None
      then s1\<lparr>views := (views s1)[created_view c := destroy (views s1 ! created_view c)]\<rparr>
      else s1)"

text \<open>
  \<^verbatim>\<open>el.contains(document.activeElement)\<close>: \<open>inside e x\<close> says that the node \<open>x\<close> is
  \<open>e\<close> or one of its descendants; \<^verbatim>\<open>contains(null)\<close> is false.
\<close>

definition contains :: "('n \<Rightarrow> 'n \<Rightarrow> bool) \<Rightarrow> 'n \<Rightarrow> 'n option \<Rightarrow> bool" where
  "contains inside e other = (case other of None \<Rightarrow> False | Some x \<Rightarrow> inside e x)"

text \<open>
  The second effect, which follows \<^verbatim>\<open>input.value\<close>: \<open>activeElement\<close> is
  \<^verbatim>\<open>document.activeElement\<close>.
\<close>

definition syncEffect ::
  "('n \<Rightarrow> 'n \<Rightarrow> bool) \<Rightarrow> 'n option \<Rightarrow> (string \<Rightarrow> 'st) \<Rightarrow> 'n option \<Rightarrow> nat option \<Rightarrow> string
    \<Rightarrow> ('st, 'n) hook \<Rightarrow> js_error + ('st, 'n) hook" where
  "syncEffect inside activeElement create el_r editorView_r str s =
     (case el_r of
        None \<Rightarrow> Inr s
      | Some e \<Rightarrow>
          (case editorView_r of
             None \<Rightarrow> Inr s
           | Some view \<Rightarrow>
               if docView (views s ! view) = None then Inr s
               else
                 (let wysiwygIsActive = contains inside e activeElement in
                  if \<not> wysiwygIsActive
                  then (case updateState (views s ! view) (create str) of
                          Inl err \<Rightarrow> Inl err
                        | Inr v \<Rightarrow> Inr (s\<lparr>views := (views s)[view := v]\<rparr>))
                  else Inr s)))"

subsection \<open>The component's life\<close>

text \<open>
  React's part. The first render has no \<^verbatim>\<open>el\<close> and no \<^verbatim>\<open>editorView\<close>. The ref callback
  \<^verbatim>\<open>elRef\<close> is memoised with no dependency, so the \<^verbatim>\<open>el\<close> it compares with is the first
  render's \<^verbatim>\<open>undefined\<close>: React passes it a node or \<^verbatim>\<open>null\<close>, and it sets \<^verbatim>\<open>el\<close>
  either way. When \<^verbatim>\<open>el\<close> has changed, React runs the cleanup function it holds, then
  \<^verbatim>\<open>setupEditor\<close> with the values of the render being committed. Unmounting runs the
  cleanup function.
\<close>

definition initial :: "('st, 'n) hook" where
  "initial = \<lparr>el = None, editorView = None, views = [], changes = [], cleanup = None\<rparr>"

definition elRef :: "'n option \<Rightarrow> ('st, 'n) hook \<Rightarrow> ('st, 'n) hook" where
  "elRef nextEl s = s\<lparr>el := nextEl\<rparr>"

definition commit_el :: "(string \<Rightarrow> 'st) \<Rightarrow> string \<Rightarrow> ('st, 'n) hook \<Rightarrow> ('st, 'n) hook" where
  "commit_el create str s =
     (let el_r = el s;
          editorView_r = editorView s;
          s1 = (case cleanup s of None \<Rightarrow> s | Some c \<Rightarrow> run_cleanup c s)
      in case setupEditor create el_r editorView_r str s1 of
           (s2, c') \<Rightarrow> s2\<lparr>cleanup := c'\<rparr>)"

definition unmount :: "('st, 'n) hook \<Rightarrow> ('st, 'n) hook" where
  "unmount s =
     (case cleanup s of None \<Rightarrow> s | Some c \<Rightarrow> (run_cleanup c s)\<lparr>cleanup := None\<rparr>)"

subsection \<open>A concrete editor\<close>

definition plain_translator :: "string Translator" where
  "plain_translator = \<lparr>nodeFromString = (\<lambda>x. x), stringFromNode = (\<lambda>n. n)\<rparr>"

definition plain_state :: "string \<Rightarrow> (unit, unit, string) EditorState" where
  "plain_state = createState (\<lambda>sch ps. ()) () plain_translator ([] :: unit list)"

definition set_doc ::
  "(unit, unit, string) EditorState \<Rightarrow> string Transaction \<Rightarrow> (unit, unit, string) EditorState" where
  "set_doc st tr = st\<lparr>doc := tr_doc tr\<rparr>"

definition mounted :: "((unit, unit, string) EditorState, nat) hook" where
  "mounted = commit_el plain_state ''old'' (elRef (Some 0) initial)"

section \<open>Properties of the media store\<close>

subsection \<open>One step of the upload loop\<close>

lemma written_simps:
  "this (written f w) = this w"
  "console (written f w) = console w"
  "writes (written f w) = writes w @ [write_args f]"
  "backend (written f w) = snd (writeMediaToDisk (client (this w)) (write_args f) (backend w))"
  by (simp_all add: written_def)

lemma response_at_0: "response_at c (f # fs) b 0 = fst (writeMediaToDisk c (write_args f) b)"
  by (simp add: response_at_def)

lemma response_at_Suc:
  "response_at c (f # fs) b (Suc i) =
     response_at c fs (snd (writeMediaToDisk c (write_args f) b)) i"
  by (simp add: response_at_def)

lemma data_at_0:
  "data_at c (f # fs) b 0 =
     (case fst (writeMediaToDisk c (write_args f) b) of Inl e \<Rightarrow> Inl e | Inr r \<Rightarrow> json r)"
  by (simp add: data_at_def response_at_0)

lemma data_at_written:
  "data_at (client (this w)) (f # fs) (backend w) (Suc i) =
     data_at (client (this (written f w))) fs (backend (written f w)) i"
  by (simp add: data_at_def response_at_Suc written_simps)

lemma response_Inl_data_Inl: "response_at c files b i = Inl e \<Longrightarrow> data_at c files b i = Inl e"
  by (simp add: data_at_def)

lemma persist_loop_reject:
  assumes "data_at (client (this w)) (f # fs) (backend w) 0 = Inl e"
  shows "persist_loop (f # fs) acc w = (Inl e, written f w)"
  using assms
  by (cases "writeMediaToDisk (client (this w)) (write_args f) (backend w)")
     (auto simp: data_at_0 written_def split: sum.splits)

lemma persist_loop_resolve:
  assumes "data_at (client (this w)) (f # fs) (backend w) 0 = Inr d"
  shows "persist_loop (f # fs) acc w =
           persist_loop fs
             (acc @ [\<lparr>src = filename d, previewSrc = filename d, reference = filename d\<rparr>])
             (written f w)"
  using assms
  by (cases "writeMediaToDisk (client (this w)) (write_args f) (backend w)")
     (auto simp: data_at_0 written_def split: sum.splits)

declare persist_loop.simps(2) [simp del]

subsection \<open>The whole loop\<close>

lemma persist_loop_frame:
  "persist_loop files acc w = (r, w') \<Longrightarrow> this w' = this w \<and> console w' = console w"
proof (induction files arbitrary: acc w)
  case Nil
  then show ?case by simp
next
  case (Cons f fs)
  show ?case
  proof (cases "data_at (client (this w)) (f # fs) (backend w) 0")
    case (Inl e)
    with Cons.prems show ?thesis by (auto simp: persist_loop_reject written_simps)
  next
    case (Inr d)
    with Cons.prems have
      "persist_loop fs (acc @ [\<lparr>src = filename d, previewSrc = filename d, reference = filename d\<rparr>])
         (written f w) = (r, w')"
      by (simp add: persist_loop_resolve)
    from Cons.IH[OF this] show ?thesis by (simp add: written_simps)
  qed
qed

lemma persist_loop_success:
  assumes "\<forall>i<length files. \<exists>d. data_at (client (this w)) files (backend w) i = Inr d"
  shows "\<exists>new w'. persist_loop files acc w = (Inr (acc @ new), w') \<and>
     length new = length files \<and>
     writes w' = writes w @ map write_args files \<and>
     backend w' = backend_after (client (this w)) files (backend w) \<and>
     (\<forall>i<length files.
        data_at (client (this w)) files (backend w) i = Inr \<lparr>filename = src (new ! i)\<rparr> \<and>
        previewSrc (new ! i) = src (new ! i) \<and> reference (new ! i) = src (new ! i))"
  using assms
proof (induction files arbitrary: acc w)
  case Nil
  then show ?case by simp
next
  case (Cons f fs)
  let ?c = "client (this w)"
  from Cons.prems obtain d where d0: "data_at ?c (f # fs) (backend w) 0 = Inr d"
    by fastforce
  let ?m = "\<lparr>src = filename d, previewSrc = filename d, reference = filename d\<rparr>"
  have rest:
    "\<forall>i<length fs. \<exists>d. data_at (client (this (written f w))) fs (backend (written f w)) i = Inr d"
  proof (intro allI impI)
    fix i assume "i < length fs"
    then have "\<exists>d. data_at ?c (f # fs) (backend w) (Suc i) = Inr d" using Cons.prems by auto
    then show "\<exists>d. data_at (client (this (written f w))) fs (backend (written f w)) i = Inr d"
      by (simp only: data_at_written)
  qed
  from Cons.IH[OF rest, of "acc @ [?m]"]
  obtain new w'' where IH:
    "persist_loop fs (acc @ [?m]) (written f w) = (Inr ((acc @ [?m]) @ new), w'')"
    "length new = length fs"
    "writes w'' = writes (written f w) @ map write_args fs"
    "backend w'' = backend_after (client (this (written f w))) fs (backend (written f w))"
    "\<forall>i<length fs.
        data_at (client (this (written f w))) fs (backend (written f w)) i =
          Inr \<lparr>filename = src (new ! i)\<rparr> \<and>
        previewSrc (new ! i) = src (new ! i) \<and> reference (new ! i) = src (new ! i)"
    by blast
  have run: "persist_loop (f # fs) acc w = (Inr (acc @ (?m # new)), w'')"
    using IH(1) by (simp add: persist_loop_resolve[OF d0])
  have each: "data_at ?c (f # fs) (backend w) i = Inr \<lparr>filename = src ((?m # new) ! i)\<rparr> \<and>
        previewSrc ((?m # new) ! i) = src ((?m # new) ! i) \<and>
        reference ((?m # new) ! i) = src ((?m # new) ! i)" if i: "i < length (f # fs)" for i
  proof (cases i)
    case 0
    then show ?thesis using d0 by simp
  next
    case (Suc j)
    then have "j < length fs" using i by simp
    with IH(5) Suc show ?thesis by (simp add: data_at_written)
  qed
  have "persist_loop (f # fs) acc w = (Inr (acc @ (?m # new)), w'') \<and>
     length (?m # new) = length (f # fs) \<and>
     writes w'' = writes w @ map write_args (f # fs) \<and>
     backend w'' = backend_after (client (this w)) (f # fs) (backend w) \<and>
     (\<forall>i<length (f # fs).
        data_at (client (this w)) (f # fs) (backend w) i =
          Inr \<lparr>filename = src ((?m # new) ! i)\<rparr> \<and>
        previewSrc ((?m # new) ! i) = src ((?m # new) ! i) \<and>
        reference ((?m # new) ! i) = src ((?m # new) ! i))"
    using run IH(2,3,4) each by (simp add: written_simps)
  then show ?case by blast
qed

lemma persist_loop_abort:
  assumes "i < length files"
    and "\<forall>j<i. \<exists>d. data_at (client (this w)) files (backend w) j = Inr d"
    and "data_at (client (this w)) files (backend w) i = Inl e"
  shows "\<exists>w'. persist_loop files acc w = (Inl e, w') \<and>
     writes w' = writes w @ map write_args (take (Suc i) files) \<and>
     backend w' = backend_after (client (this w)) (take (Suc i) files) (backend w)"
  using assms
proof (induction files arbitrary: acc w i)
  case Nil
  then show ?case by simp
next
  case (Cons f fs)
  show ?case
  proof (cases i)
    case 0
    with Cons.prems(3) have "persist_loop (f # fs) acc w = (Inl e, written f w)"
      by (simp add: persist_loop_reject)
    with 0 show ?thesis by (simp add: written_simps)
  next
    case (Suc k)
    from Cons.prems(2) Suc obtain d where
      d0: "data_at (client (this w)) (f # fs) (backend w) 0 = Inr d"
      by fastforce
    let ?m = "\<lparr>src = filename d, previewSrc = filename d, reference = filename d\<rparr>"
    have k: "k < length fs" using Cons.prems(1) Suc by simp
    have before:
      "\<forall>j<k. \<exists>d. data_at (client (this (written f w))) fs (backend (written f w)) j = Inr d"
    proof (intro allI impI)
      fix j assume "j < k"
      then have "Suc j < i" using Suc by simp
      with Cons.prems(2) have
        "\<exists>d. data_at (client (this w)) (f # fs) (backend w) (Suc j) = Inr d"
        by blast
      then show "\<exists>d. data_at (client (this (written f w))) fs (backend (written f w)) j = Inr d"
        by (simp only: data_at_written)
    qed
    have at: "data_at (client (this (written f w))) fs (backend (written f w)) k = Inl e"
      using Cons.prems(3) Suc by (simp only: data_at_written)
    from Cons.IH[OF k before at, of "acc @ [?m]"] obtain w' where IH:
      "persist_loop fs (acc @ [?m]) (written f w) = (Inl e, w')"
      "writes w' = writes (written f w) @ map write_args (take (Suc k) fs)"
      "backend w' =
         backend_after (client (this (written f w))) (take (Suc k) fs) (backend (written f w))"
      by blast
    have "persist_loop (f # fs) acc w = (Inl e, w')"
      using IH(1) by (simp add: persist_loop_resolve[OF d0])
    with IH(2,3) Suc show ?thesis by (simp add: written_simps)
  qed
qed

text \<open>A loop that returns the array got data from every write.\<close>

lemma persist_loop_returned:
  "persist_loop files acc w = (Inr out, w') \<Longrightarrow>
     \<forall>i<length files. \<exists>d. data_at (client (this w)) files (backend w) i = Inr d"
proof (induction files arbitrary: acc w)
  case Nil
  then show ?case by simp
next
  case (Cons f fs)
  show ?case
  proof (cases "data_at (client (this w)) (f # fs) (backend w) 0")
    case (Inl e)
    with Cons.prems show ?thesis by (simp add: persist_loop_reject)
  next
    case (Inr d)
    with Cons.prems have
      "persist_loop fs (acc @ [\<lparr>src = filename d, previewSrc = filename d, reference = filename d\<rparr>])
         (written f w) = (Inr out, w')"
      by (simp add: persist_loop_resolve)
    from Cons.IH[OF this] have rest:
      "\<forall>i<length fs. \<exists>d. data_at (client (this (written f w))) fs (backend (written f w)) i = Inr d" .
    show ?thesis
    proof (intro allI impI)
      fix i assume i: "i < length (f # fs)"
      show "\<exists>d. data_at (client (this w)) (f # fs) (backend w) i = Inr d"
      proof (cases i)
        case 0
        with Inr show ?thesis by simp
      next
        case (Suc j)
        with i rest show ?thesis by (simp add: data_at_written)
      qed
    qed
  qed
qed

lemma persist_Inr:
  "persist files w = (Inr uploaded, w') \<Longrightarrow> \<exists>w1. persist_loop files [] w = (Inr uploaded, w1)"
  by (auto simp: persist_def split: prod.splits sum.splits)

lemma call_store_accept: "accept (this (call_store c w)) = accept (this w)"
proof (cases c)
  case (Persist files)
  obtain r w1 where loop: "persist_loop files [] w = (r, w1)"
    by (cases "persist_loop files [] w")
  then have "this w1 = this w" by (simp add: persist_loop_frame)
  with loop Persist show ?thesis by (cases r) (simp_all add: persist_def)
qed (simp_all add: list_def delete_def find_media_def)

lemma run_calls_accept: "accept (this (run_calls calls w)) = accept (this w)"
  by (induction calls arbitrary: w) (simp_all add: call_store_accept)

subsection \<open>The claims about the media store\<close>

text \<open>
  C1. Whenever \<open>persist\<close> of N upload requests returns its array, the array has exactly
  N media descriptors, one write call was issued per request, in input order, and the
  descriptor at position i carries the filename of the response to the write for the
  request at position i. It does return the array whenever every write settles with a
  parsed response.
\<close>

theorem persist_one_descriptor_per_request:
  "(persist files w = (Inr uploaded, w') \<longrightarrow>
      length uploaded = length files \<and>
      writes w' = writes w @ map write_args files \<and>
      (\<forall>i<length files.
         data_at (client (this w)) files (backend w) i =
           Inr \<lparr>filename = src (uploaded ! i)\<rparr>)) \<and>
   ((\<forall>i<length files. \<exists>d. data_at (client (this w)) files (backend w) i = Inr d) \<longrightarrow>
      (\<exists>uploaded w'. persist files w = (Inr uploaded, w')))"
proof (intro conjI impI)
  assume ok: "\<forall>i<length files. \<exists>d. data_at (client (this w)) files (backend w) i = Inr d"
  from persist_loop_success[OF ok, of "[]"] obtain new w1 where
    "persist_loop files [] w = (Inr ([] @ new), w1)"
    by blast
  then have "persist files w = (Inr new, w1\<lparr>console := console w1 @ [new]\<rparr>)"
    by (simp add: persist_def)
  then show "\<exists>uploaded w'. persist files w = (Inr uploaded, w')" by blast
next
  assume ret: "persist files w = (Inr uploaded, w')"
  then obtain w1 where run: "persist_loop files [] w = (Inr uploaded, w1)"
    using persist_Inr by blast
  then have w': "w' = w1\<lparr>console := console w1 @ [uploaded]\<rparr>"
    using ret by (simp add: persist_def)
  from run have "\<forall>i<length files. \<exists>d. data_at (client (this w)) files (backend w) i = Inr d"
    by (rule persist_loop_returned)
  from persist_loop_success[OF this, of "[]"] obtain new w2 where L:
    "persist_loop files [] w = (Inr ([] @ new), w2)"
    "length new = length files"
    "writes w2 = writes w @ map write_args files"
    "\<forall>i<length files.
        data_at (client (this w)) files (backend w) i = Inr \<lparr>filename = src (new ! i)\<rparr> \<and>
        previewSrc (new ! i) = src (new ! i) \<and> reference (new ! i) = src (new ! i)"
    by blast
  from run L(1) have same: "new = uploaded" "w2 = w1" by simp_all
  from L(2) same show "length uploaded = length files" by simp
  from L(3) same w' show "writes w' = writes w @ map write_args files" by simp
  from L(4) same show "\<forall>i<length files.
      data_at (client (this w)) files (backend w) i = Inr \<lparr>filename = src (uploaded ! i)\<rparr>"
    by simp
qed

theorem persist_one_descriptor_per_request_witness:
  "data_at disk_client three_files 0 2 = Inr \<lparr>filename = ''doc/c.png''\<rparr> \<and>
   (\<exists>uploaded w'. persist three_files (world_of disk_client 0) = (Inr uploaded, w') \<and>
      length uploaded = 3 \<and> src (uploaded ! 2) = ''doc/c.png'' \<and>
      writes w' = map write_args three_files)"
proof -
  have a: "\<And>i. i < 3 \<Longrightarrow> i = 0 \<or> i = Suc 0 \<or> i = Suc (Suc 0)" by arith
  have d: "data_at disk_client three_files 0 0 = Inr \<lparr>filename = ''img/a.png''\<rparr>"
    "data_at disk_client three_files 0 (Suc 0) = Inr \<lparr>filename = ''img/b.png''\<rparr>"
    "data_at disk_client three_files 0 (Suc (Suc 0)) = Inr \<lparr>filename = ''doc/c.png''\<rparr>"
    by (simp_all add: data_at_def response_at_def disk_client_def three_files_def write_args_def)
  have h: "\<forall>i<length three_files.
      \<exists>d. data_at (client (this (world_of disk_client 0))) three_files
             (backend (world_of disk_client 0)) i = Inr d"
  proof (intro allI impI)
    fix i assume "i < length three_files"
    then have "i < 3" by (simp add: three_files_def)
    from a[OF this] d show "\<exists>d. data_at (client (this (world_of disk_client 0))) three_files
             (backend (world_of disk_client 0)) i = Inr d"
      by (auto simp: world_of_def new_GitMediaStore_def)
  qed
  have l: "length three_files = 3" by (simp add: three_files_def)
  have two: "Suc (Suc 0) = 2" by simp
  from h persist_one_descriptor_per_request[of three_files "world_of disk_client 0"]
  obtain uploaded w' where ret:
    "persist three_files (world_of disk_client 0) = (Inr uploaded, w')"
    by blast
  from ret persist_one_descriptor_per_request[of three_files "world_of disk_client 0" uploaded w']
  have P:
    "length uploaded = length three_files"
    "writes w' = writes (world_of disk_client 0) @ map write_args three_files"
    "\<forall>i<length three_files.
        data_at (client (this (world_of disk_client 0))) three_files
          (backend (world_of disk_client 0)) i = Inr \<lparr>filename = src (uploaded ! i)\<rparr>"
    by blast+
  from P(3) l have "data_at disk_client three_files 0 2 = Inr \<lparr>filename = src (uploaded ! 2)\<rparr>"
    by (simp add: world_of_def new_GitMediaStore_def)
  with d(3) have "src (uploaded ! 2) = ''doc/c.png''" by (simp add: two)
  with ret P(1,2) l d(3) show ?thesis by (simp add: world_of_def two)
qed

text \<open>
  C5. When the write for the request at position i is rejected (the writes before it
  having gone through), \<open>persist\<close> is rejected with that same reason: it returns no
  array and logs none, and the write calls issued are those for the positions 0 to i,
  once each, so none for a later request and none twice.
\<close>

theorem persist_write_failure_aborts:
  assumes "i < length files"
    and "\<forall>j<i. \<exists>d. data_at (client (this w)) files (backend w) j = Inr d"
    and "response_at (client (this w)) files (backend w) i = Inl e"
  shows "\<exists>w'. persist files w = (Inl e, w') \<and>
     writes w' = writes w @ map write_args (take (Suc i) files) \<and>
     backend w' = backend_after (client (this w)) (take (Suc i) files) (backend w) \<and>
     console w' = console w \<and> this w' = this w"
proof -
  from assms(3) have "data_at (client (this w)) files (backend w) i = Inl e"
    by (rule response_Inl_data_Inl)
  from persist_loop_abort[OF assms(1,2) this, of "[]"] obtain w' where L:
    "persist_loop files [] w = (Inl e, w')"
    "writes w' = writes w @ map write_args (take (Suc i) files)"
    "backend w' = backend_after (client (this w)) (take (Suc i) files) (backend w)"
    by blast
  from L(1) have "this w' = this w \<and> console w' = console w" by (rule persist_loop_frame)
  moreover from L(1) have "persist files w = (Inl e, w')" by (simp add: persist_def)
  ultimately show ?thesis using L(2,3) by simp
qed

theorem persist_write_failure_aborts_witness:
  "response_at flaky_client three_files 0 (Suc 0) = Inl ''offline'' \<and>
   (\<exists>w'. persist three_files (world_of flaky_client 0) = (Inl ''offline'', w') \<and>
      writes w' = [\<lparr>to_directory = ''img'', content = ''a.png''\<rparr>,
                   \<lparr>to_directory = ''img'', content = ''b.png''\<rparr>] \<and>
      console w' = [])"
proof -
  have r: "response_at flaky_client three_files 0 (Suc 0) = Inl ''offline''"
    by (simp add: response_at_def flaky_client_def three_files_def write_args_def)
  have d: "data_at flaky_client three_files 0 0 = Inr \<lparr>filename = ''img/a.png''\<rparr>"
    by (simp add: data_at_def response_at_def flaky_client_def three_files_def write_args_def)
  have i: "Suc 0 < length three_files" by (simp add: three_files_def)
  have before: "\<forall>j<Suc 0. \<exists>d. data_at (client (this (world_of flaky_client 0))) three_files
      (backend (world_of flaky_client 0)) j = Inr d"
    using d by (simp add: world_of_def new_GitMediaStore_def)
  have at: "response_at (client (this (world_of flaky_client 0))) three_files
      (backend (world_of flaky_client 0)) (Suc 0) = Inl ''offline''"
    using r by (simp add: world_of_def new_GitMediaStore_def)
  from persist_write_failure_aborts[OF i before at] obtain w' where P:
    "persist three_files (world_of flaky_client 0) = (Inl ''offline'', w')"
    "writes w' = writes (world_of flaky_client 0) @ map write_args (take (Suc (Suc 0)) three_files)"
    "console w' = console (world_of flaky_client 0)"
    by blast
  from P(2) have "writes w' = [\<lparr>to_directory = ''img'', content = ''a.png''\<rparr>,
                   \<lparr>to_directory = ''img'', content = ''b.png''\<rparr>]"
    by (simp add: world_of_def three_files_def write_args_def)
  moreover from P(3) have "console w' = []" by (simp add: world_of_def)
  ultimately show ?thesis using r P(1) by blast
qed

text \<open>
  C6. Every descriptor in the array \<open>persist\<close> returns has \<open>src\<close>, \<open>previewSrc\<close> and
  \<open>reference\<close> all equal to the \<open>filename\<close> of the data parsed from the response to
  the write for the request at the descriptor's position.
\<close>

theorem persist_descriptor_fields:
  assumes "persist files w = (Inr uploaded, w')" and "i < length uploaded"
  shows "\<exists>d. data_at (client (this w)) files (backend w) i = Inr d \<and>
     src (uploaded ! i) = filename d \<and>
     previewSrc (uploaded ! i) = filename d \<and>
     reference (uploaded ! i) = filename d"
proof -
  from assms(1) obtain w1 where run: "persist_loop files [] w = (Inr uploaded, w1)"
    using persist_Inr by blast
  then have "\<forall>i<length files. \<exists>d. data_at (client (this w)) files (backend w) i = Inr d"
    by (rule persist_loop_returned)
  from persist_loop_success[OF this, of "[]"] obtain new w2 where L:
    "persist_loop files [] w = (Inr ([] @ new), w2)"
    "length new = length files"
    "\<forall>i<length files.
        data_at (client (this w)) files (backend w) i = Inr \<lparr>filename = src (new ! i)\<rparr> \<and>
        previewSrc (new ! i) = src (new ! i) \<and> reference (new ! i) = src (new ! i)"
    by blast
  from run L(1) have "new = uploaded" by simp
  with L(2,3) assms(2) show ?thesis by simp
qed

theorem persist_descriptor_fields_witness:
  "persist three_files (world_of disk_client 0) =
     (Inr [\<lparr>src = ''img/a.png'', previewSrc = ''img/a.png'', reference = ''img/a.png''\<rparr>,
           \<lparr>src = ''img/b.png'', previewSrc = ''img/b.png'', reference = ''img/b.png''\<rparr>,
           \<lparr>src = ''doc/c.png'', previewSrc = ''doc/c.png'', reference = ''doc/c.png''\<rparr>],
      (world_of disk_client 0)
        \<lparr>backend := 3, writes := map write_args three_files,
          console := [[\<lparr>src = ''img/a.png'', previewSrc = ''img/a.png'', reference = ''img/a.png''\<rparr>,
           \<lparr>src = ''img/b.png'', previewSrc = ''img/b.png'', reference = ''img/b.png''\<rparr>,
           \<lparr>src = ''doc/c.png'', previewSrc = ''doc/c.png'', reference = ''doc/c.png''\<rparr>]]\<rparr>) \<and>
   (\<exists>d. data_at disk_client three_files 0 (Suc 0) = Inr d \<and> filename d = ''img/b.png'')"
proof -
  have run: "persist three_files (world_of disk_client 0) =
     (Inr [\<lparr>src = ''img/a.png'', previewSrc = ''img/a.png'', reference = ''img/a.png''\<rparr>,
           \<lparr>src = ''img/b.png'', previewSrc = ''img/b.png'', reference = ''img/b.png''\<rparr>,
           \<lparr>src = ''doc/c.png'', previewSrc = ''doc/c.png'', reference = ''doc/c.png''\<rparr>],
      (world_of disk_client 0)
        \<lparr>backend := 3, writes := map write_args three_files,
          console := [[\<lparr>src = ''img/a.png'', previewSrc = ''img/a.png'', reference = ''img/a.png''\<rparr>,
           \<lparr>src = ''img/b.png'', previewSrc = ''img/b.png'', reference = ''img/b.png''\<rparr>,
           \<lparr>src = ''doc/c.png'', previewSrc = ''doc/c.png'', reference = ''doc/c.png''\<rparr>]]\<rparr>)"
    by (simp add: persist_def persist_loop.simps(2) three_files_def world_of_def
        new_GitMediaStore_def disk_client_def write_args_def eval_nat_numeral)
  from persist_descriptor_fields[OF run, of "Suc 0"] obtain d where
    "data_at (client (this (world_of disk_client 0))) three_files
       (backend (world_of disk_client 0)) (Suc 0) = Inr d"
    "src ([\<lparr>src = ''img/a.png'', previewSrc = ''img/a.png'', reference = ''img/a.png''\<rparr>,
           \<lparr>src = ''img/b.png'', previewSrc = ''img/b.png'', reference = ''img/b.png''\<rparr>,
           \<lparr>src = ''doc/c.png'', previewSrc = ''doc/c.png'', reference = ''doc/c.png''\<rparr>] ! Suc 0)
       = filename d"
    by auto
  then have "data_at disk_client three_files 0 (Suc 0) = Inr d \<and> filename d = ''img/b.png''"
    by (simp add: world_of_def new_GitMediaStore_def)
  with run show ?thesis by blast
qed

text \<open>
  C7. \<open>find\<close> returns the placeholder descriptor, all three fields \<open>test.jpg\<close>,
  whatever it is called with and in whatever world, and \<open>list\<close> returns the empty
  array; neither changes anything.
\<close>

theorem find_list_fixed:
  "find_media args w =
     (\<lparr>src = ''test.jpg'', previewSrc = ''test.jpg'', reference = ''test.jpg''\<rparr>, w) \<and>
   list w = ([], w)"
  by (simp add: find_media_def list_def)

text \<open>
  C10. A store is constructed with \<open>accept\<close> equal to \<open>*\<close>, and no sequence of calls of
  \<open>list\<close>, \<open>delete\<close>, \<open>find\<close> and \<open>persist\<close> changes the field.
\<close>

theorem accept_invariant:
  "accept (new_GitMediaStore c) = ''*'' \<and>
   accept (this (run_calls calls w)) = accept (this w) \<and>
   accept (this (run_calls calls (world_of c b))) = ''*''"
  by (simp add: run_calls_accept new_GitMediaStore_def world_of_def)

section \<open>Properties of the editor\<close>

lemma mounted_eq:
  "mounted =
     \<lparr>el = Some 0, editorView = Some 0,
      views = [\<lparr>state = plain_state ''old'', docView = Some (NodeView 0), destroyed = False\<rparr>],
      changes = [],
      cleanup = Some \<lparr>seen_editorView = None, created_view = 0\<rparr>\<rparr>"
  by (simp add: mounted_def commit_el_def elRef_def initial_def setupEditor_def)

text \<open>
  C2. A transaction dispatched to a view that has its docView is applied and the view's
  state is updated to the result; \<open>input.onChange\<close> is called exactly once, with the
  string the translator gives for the transaction's document, when the transaction
  changed the document, and not at all when it did not.
\<close>

theorem dispatchTransaction_onChange:
  assumes "view < length (views s)" and "docView (views s ! view) \<noteq> None"
  shows "\<exists>s'. dispatchTransaction apply_tr translator view tr s = Inr s' \<and>
     state (views s' ! view) = apply_tr (state (views s ! view)) tr \<and>
     views s' = (views s)[view := (views s ! view)\<lparr>state := apply_tr (state (views s ! view)) tr\<rparr>] \<and>
     editorView s' = Some view \<and>
     changes s' =
       changes s @ (if docChanged tr then [stringFromNode translator (tr_doc tr)] else [])"
  using assms by (simp add: dispatchTransaction_def updateState_def)

theorem dispatchTransaction_onChange_witness:
  "0 < length (views mounted) \<and> docView (views mounted ! 0) \<noteq> None \<and>
   (\<exists>s'. dispatchTransaction set_doc plain_translator 0 \<lparr>docChanged = True, tr_doc = ''new''\<rparr>
            mounted = Inr s' \<and>
      doc (state (views s' ! 0)) = ''new'' \<and> changes s' = [''new'']) \<and>
   (\<exists>s'. dispatchTransaction set_doc plain_translator 0 \<lparr>docChanged = False, tr_doc = ''old''\<rparr>
            mounted = Inr s' \<and>
      changes s' = [])"
proof -
  have len: "0 < length (views mounted)" by (simp add: mounted_eq)
  have dv: "docView (views mounted ! 0) \<noteq> None" by (simp add: mounted_eq)
  from dispatchTransaction_onChange[OF len dv, of set_doc plain_translator
      "\<lparr>docChanged = True, tr_doc = ''new''\<rparr>"]
  have a: "\<exists>s'. dispatchTransaction set_doc plain_translator 0 \<lparr>docChanged = True, tr_doc = ''new''\<rparr>
            mounted = Inr s' \<and>
      doc (state (views s' ! 0)) = ''new'' \<and> changes s' = [''new'']"
    by (auto simp: mounted_eq set_doc_def plain_translator_def)
  from dispatchTransaction_onChange[OF len dv, of set_doc plain_translator
      "\<lparr>docChanged = False, tr_doc = ''old''\<rparr>"]
  have b: "\<exists>s'. dispatchTransaction set_doc plain_translator 0 \<lparr>docChanged = False, tr_doc = ''old''\<rparr>
            mounted = Inr s' \<and> changes s' = []"
    by (auto simp: mounted_eq)
  from len dv a b show ?thesis by blast
qed

text \<open>
  C3. While the mount element contains the focused element, the effect that follows
  \<open>input.value\<close> leaves the instance, and so every view's state, as it is. When it
  does not, and the view is there with its docView, the effect sets the view's state to
  the state built from the new value.
\<close>

theorem syncEffect_focus:
  "(contains inside e activeElement \<longrightarrow>
      syncEffect inside activeElement (createState bk sch tlr ps) (Some e) editorView_r str s =
        Inr s) \<and>
   (\<not> contains inside e activeElement \<and> view < length (views s) \<and>
    docView (views s ! view) \<noteq> None \<longrightarrow>
      (\<exists>s'. syncEffect inside activeElement (createState bk sch tlr ps) (Some e) (Some view) str s =
               Inr s' \<and>
         state (views s' ! view) = createEditorState bk sch tlr ps str \<and>
         s' = s\<lparr>views := (views s)[view := (views s ! view)
                   \<lparr>state := createEditorState bk sch tlr ps str\<rparr>]\<rparr>))"
  by (cases editorView_r)
     (simp_all add: syncEffect_def updateState_def createState_def)

theorem syncEffect_focus_witness:
  "contains (\<lambda>a b. a \<le> b) (0::nat) (Some 1) \<and>
   syncEffect (\<lambda>a b. a \<le> b) (Some 1) plain_state (Some 0) (Some 0) ''new'' mounted = Inr mounted \<and>
   \<not> contains (\<lambda>a b. a \<le> b) (0::nat) None \<and>
   (\<exists>s'. syncEffect (\<lambda>a b. a \<le> b) None plain_state (Some 0) (Some 0) ''new'' mounted = Inr s' \<and>
      doc (state (views s' ! 0)) = ''new'')"
proof -
  have f: "contains (\<lambda>a b. a \<le> b) (0::nat) (Some 1)" by (simp add: contains_def)
  have u: "\<not> contains (\<lambda>a b. a \<le> b) (0::nat) None \<and> 0 < length (views mounted) \<and>
      docView (views mounted ! 0) \<noteq> None"
    by (simp add: contains_def mounted_eq)
  have ps: "plain_state = createState (\<lambda>sch ps. ()) () plain_translator ([] :: unit list)"
    by (simp add: plain_state_def)
  from f syncEffect_focus[of "\<lambda>a b. a \<le> b" 0 "Some 1" "\<lambda>sch ps. ()" "()" plain_translator
      "[] :: unit list" "Some 0" "''new''" mounted 0]
  have a: "syncEffect (\<lambda>a b. a \<le> b) (Some 1) plain_state (Some 0) (Some 0) ''new'' mounted =
      Inr mounted"
    by (simp add: ps)
  from u syncEffect_focus[of "\<lambda>a b. a \<le> b" 0 None "\<lambda>sch ps. ()" "()" plain_translator
      "[] :: unit list" "Some 0" "''new''" mounted 0]
  have b: "\<exists>s'. syncEffect (\<lambda>a b. a \<le> b) None plain_state (Some 0) (Some 0) ''new'' mounted = Inr s' \<and>
      doc (state (views s' ! 0)) = ''new''"
    by (simp add: ps createEditorState_def plain_translator_def)
  from f u a b show ?thesis by blast
qed

text \<open>
  C4. The view that \<open>setupEditor\<close> creates when the element is first set is not
  destroyed when the component unmounts: the cleanup function tests the
  \<open>editorView\<close> of the render that ran the effect, which is still undefined.
\<close>

theorem first_view_not_destroyed:
  "cleanup (commit_el create str (elRef (Some n) initial)) =
     Some \<lparr>seen_editorView = None, created_view = 0\<rparr> \<and>
   views (unmount (commit_el create str (elRef (Some n) initial))) =
     [\<lparr>state = create str, docView = Some (NodeView n), destroyed = False\<rparr>]"
  by (simp add: unmount_def commit_el_def elRef_def initial_def setupEditor_def run_cleanup_def)

text \<open>
  C8. Whatever the value, \<open>createEditorState\<close> attaches the same nine plugins in the
  same order: input rules, keymap, history, links, drop cursor, gap cursor, table
  editing, the table plugin and the image plugin.
\<close>

theorem createEditorState_plugins_fixed:
  "plugins (createEditorState bk sch tlr ps str) =
     [inputRules sch, keymap (bk sch ps), history, links sch,
      dropCursor 2 ''rgb(33, 224, 158)'', gapCursor, tableEditing, tablePlugin, imagePlugin] \<and>
   plugins (createEditorState bk sch tlr ps str) = plugins (createEditorState bk sch tlr ps str')"
  by (simp add: createEditorState_def)

text \<open>
  C9. When the element is unset, or there is no editor view, or the view has no
  docView, the effect that follows \<open>input.value\<close> returns the instance unchanged, focused
  or not; and the effect never throws, so \<open>updateState\<close> is never called on a view without
  a docView.
\<close>

theorem syncEffect_guards:
  "((el_r = None \<or> editorView_r = None \<or>
     (\<exists>view. editorView_r = Some view \<and> docView (views s ! view) = None)) \<longrightarrow>
      syncEffect inside activeElement create el_r editorView_r str s = Inr s) \<and>
   syncEffect inside activeElement create el_r editorView_r str s \<noteq> Inl err"
  by (auto simp: syncEffect_def updateState_def Let_def split: option.splits)

theorem syncEffect_guards_witness:
  "docView (views (unmount (commit_el plain_state ''old'' (elRef (Some (1::nat)) mounted))) ! 1) = None \<and>
   syncEffect (\<lambda>a b. a \<le> b) None plain_state (Some 1) (Some 1) ''new''
     (unmount (commit_el plain_state ''old'' (elRef (Some (1::nat)) mounted))) =
       Inr (unmount (commit_el plain_state ''old'' (elRef (Some 1) mounted))) \<and>
   syncEffect (\<lambda>a b. a \<le> b) None plain_state None (Some 0) ''new'' mounted = Inr mounted"
proof -
  have dv: "docView (views (unmount (commit_el plain_state ''old'' (elRef (Some (1::nat)) mounted))) ! 1)
      = None"
    by (simp add: mounted_eq unmount_def commit_el_def elRef_def setupEditor_def run_cleanup_def
        destroy_def)
  from dv syncEffect_guards[of "Some 1" "Some 1"
      "unmount (commit_el plain_state ''old'' (elRef (Some (1::nat)) mounted))"
      "\<lambda>a b. a \<le> b" None plain_state "''new''"]
  have a: "syncEffect (\<lambda>a b. a \<le> b) None plain_state (Some 1) (Some 1) ''new''
     (unmount (commit_el plain_state ''old'' (elRef (Some (1::nat)) mounted))) =
       Inr (unmount (commit_el plain_state ''old'' (elRef (Some 1) mounted)))"
    by simp
  from syncEffect_guards[of None "Some 0" mounted "\<lambda>a b. a \<le> b" None plain_state "''new''"]
  have b: "syncEffect (\<lambda>a b. a \<le> b) None plain_state None (Some 0) ''new'' mounted = Inr mounted"
    by simp
  from dv a b show ?thesis by blast
qed

end
